theory Spec2Isabelle
  imports Complex_Main
begin

section \<open>Fields of physical variables (core/numerics/fields/fields.py)\<close>

text \<open>
  A shallow embedding of the class \<open>Field\<close> and of its three variants \<open>CellField\<close>,
  \<open>FaceField\<close> and \<open>NodeField\<close>. A Python \<open>Field\<close> is a mutable object that holds a
  reference to a numpy array, and \<open>assign\<close> rebinds that reference, so both levels are
  explicit here: a state holds the field objects and the arrays, a field is named by its
  position among the objects and an array by its position among the arrays. Every method
  takes the state and returns its result, or the exception it raised, with the state it
  left behind.
\<close>

subsection \<open>Exceptions\<close>

text \<open>
  The Python exceptions the source raises or lets through. The spec's error kinds map
  onto them: \<open>IndexOutOfRange\<close> is \<open>IndexError\<close>; \<open>TypeMismatch\<close>,
  \<open>IncompatibleFields\<close> and \<open>InvalidCallable\<close> are all \<open>TypeError\<close>; the source
  has no size check of its own, and \<open>ValueError\<close> is what numpy and \<open>min\<close> raise;
  \<open>MemoryError\<close> is what numpy raises when it cannot allocate an array.
\<close>

datatype error = TypeError | ValueError | IndexError | NotImplementedError | MemoryError

subsection \<open>Variables\<close>

text \<open>
  Modelled from the spec: the module \<open>core.numerics.fields.variables\<close> (the classes
  \<open>Variable\<close>, \<open>Scalar\<close>, \<open>Vector\<close>, \<open>Tensor\<close>) is not among the sources. The spec gives
  a variable a kind among Scalar, Vector and Tensor, a \<open>type\<close> tag comparable for
  equality, and the operations add, subtract, multiply by a scalar, negate and abs, each
  returning a variable of the same kind. Numbers are reals here, and the components of a
  vector or tensor are a list; adding or subtracting variables of two different kinds,
  which the spec does not define, raises \<open>TypeError\<close>.
\<close>

datatype variable = Scalar real | Vector "real list" | Tensor "real list"

fun var_type :: "variable \<Rightarrow> string" where
  "var_type (Scalar x) = ''scalar''"
| "var_type (Vector xs) = ''vector''"
| "var_type (Tensor xs) = ''tensor''"

fun var_add :: "variable \<Rightarrow> variable \<Rightarrow> error + variable" where
  "var_add (Scalar x) (Scalar y) = Inr (Scalar (x + y))"
| "var_add (Vector xs) (Vector ys) = Inr (Vector (map2 (+) xs ys))"
| "var_add (Tensor xs) (Tensor ys) = Inr (Tensor (map2 (+) xs ys))"
| "var_add x y = Inl TypeError"

fun var_sub :: "variable \<Rightarrow> variable \<Rightarrow> error + variable" where
  "var_sub (Scalar x) (Scalar y) = Inr (Scalar (x - y))"
| "var_sub (Vector xs) (Vector ys) = Inr (Vector (map2 (-) xs ys))"
| "var_sub (Tensor xs) (Tensor ys) = Inr (Tensor (map2 (-) xs ys))"
| "var_sub x y = Inl TypeError"

fun var_mul :: "variable \<Rightarrow> real \<Rightarrow> variable" where
  "var_mul (Scalar x) k = Scalar (x * k)"
| "var_mul (Vector xs) k = Vector (map (\<lambda>x. x * k) xs)"
| "var_mul (Tensor xs) k = Tensor (map (\<lambda>x. x * k) xs)"

fun var_neg :: "variable \<Rightarrow> variable" where
  "var_neg (Scalar x) = Scalar (- x)"
| "var_neg (Vector xs) = Vector (map uminus xs)"
| "var_neg (Tensor xs) = Tensor (map uminus xs)"

fun var_abs :: "variable \<Rightarrow> variable" where
  "var_abs (Scalar x) = Scalar \<bar>x\<bar>"
| "var_abs (Vector xs) = Vector (map abs xs)"
| "var_abs (Tensor xs) = Tensor (map abs xs)"

subsection \<open>numpy arrays of variables\<close>

text \<open>
  The arrays of the source are one-dimensional numpy arrays of objects; a list stands for
  one. \<open>np_full\<close> is \<open>np.full(n, d)\<close>. It refuses a negative length with
  \<open>ValueError\<close>, and with \<open>ValueError\<close> too a length numpy cannot represent: on a
  64-bit build the size of an array in bytes must fit a signed 64-bit integer, and a slot
  of an array of objects takes 8 bytes, so the refused lengths start at \<open>2 ^ 60\<close>
  (\<open>np_size_limit\<close>). A representable length that the process cannot allocate raises
  \<open>MemoryError\<close>; how many slots the process can allocate is a fact of the machine, the
  first argument of \<open>np_full\<close>. Every other length, zero included, gives an array
  filled with \<open>d\<close>. \<open>np_index\<close> is the index check of \<open>a[i]\<close> for an integer
  \<open>i\<close>: an index from \<open>-len\<close> up to \<open>-1\<close> counts from the end, anything outside
  \<open>[-len, len)\<close> raises \<open>IndexError\<close>.
\<close>

definition np_size_limit :: int where
  "np_size_limit = 2 ^ 60"

definition np_full :: "int \<Rightarrow> int \<Rightarrow> variable \<Rightarrow> error + variable list" where
  "np_full cap n d =
     (if n < 0 then Inl ValueError
      else if np_size_limit \<le> n then Inl ValueError
      else if cap < n then Inl MemoryError
      else Inr (replicate (nat n) d))"

definition np_index :: "nat \<Rightarrow> int \<Rightarrow> error + nat" where
  "np_index n i =
     (if 0 \<le> i \<and> i < int n then Inr (nat i)
      else if - int n \<le> i \<and> i < 0 then Inr (nat (int n + i))
      else Inl IndexError)"

text \<open>
  \<open>sequence\<close> collects the results of the elementwise calls of an array operation; the
  first call that raises ends the operation with its exception.
\<close>

fun sequence :: "(error + 'a) list \<Rightarrow> error + 'a list" where
  "sequence [] = Inr []"
| "sequence (Inl e # rs) = Inl e"
| "sequence (Inr x # rs) = (case sequence rs of Inl e \<Rightarrow> Inl e | Inr xs \<Rightarrow> Inr (x # xs))"

text \<open>
  \<open>np_binop\<close> is \<open>a + b\<close> or \<open>a - b\<close> on two arrays: elementwise on equal lengths, an
  array of length one is broadcast against the other, and any other pair of lengths
  raises \<open>ValueError\<close>. \<open>np_vectorize\<close> is \<open>np.vectorize(f)(a)\<close> with no \<open>otypes\<close>:
  numpy calls \<open>f\<close> on the first element to find the output type, and raises
  \<open>ValueError\<close> on an array of size zero.
\<close>

definition np_binop ::
  "(variable \<Rightarrow> variable \<Rightarrow> error + variable) \<Rightarrow> variable list \<Rightarrow> variable list
   \<Rightarrow> error + variable list" where
  "np_binop f xs ys =
     (if length xs = length ys then sequence (map2 f xs ys)
      else if length ys = 1 then sequence (map (\<lambda>x. f x (hd ys)) xs)
      else if length xs = 1 then sequence (map (f (hd xs)) ys)
      else Inl ValueError)"

definition np_vectorize :: "(variable \<Rightarrow> error + 'a) \<Rightarrow> variable list \<Rightarrow> error + 'a list" where
  "np_vectorize f xs = (if xs = [] then Inl ValueError else sequence (map f xs))"

subsection \<open>Field objects and the state\<close>

text \<open>
  \<open>FieldBase\<close> is the class \<open>Field\<close> itself: it does not derive from \<open>ABC\<close>, so Python
  lets it be instantiated, and its \<open>domain\<close> raises \<open>NotImplementedError\<close>.
\<close>

datatype field_class = FieldBase | CellField | FaceField | NodeField

record field =
  cls :: field_class
  num_vars :: int
  default_var :: variable
  values_ref :: nat

record state =
  objs :: "field list"
  arrs :: "variable list list"
  max_alloc :: int

type_synonym 'a res = "(error + 'a) \<times> state"

text \<open>
  What a caller can pass where the source tests \<open>isinstance(other, Field)\<close>,
  \<open>isinstance(other, Variable)\<close> or \<open>isinstance(other, Scalar)\<close>: a field, a variable,
  or any other Python object (a float, \<open>None\<close>, ...). What a caller can pass as
  \<open>func\<close> to \<open>for_each\<close> and \<open>at\<close>: an object that is not callable, or a function; a
  function's result \<open>None\<close> stands for any result that is not a \<open>Variable\<close>.
\<close>

datatype operand = OField nat | OVar variable | OOther

datatype transform = NotCallable | Callable "variable \<Rightarrow> variable option"

text \<open>
  \<open>max_alloc\<close> is the number of slots of the largest array the process can allocate;
  no method changes it. \<open>empty_state\<close> has no field yet, on a machine that allocates
  arrays of up to a million slots.
\<close>

definition empty_state :: state where
  "empty_state = \<lparr>objs = [], arrs = [], max_alloc = 1000000\<rparr>"

definition self_values :: "state \<Rightarrow> nat \<Rightarrow> variable list" where
  "self_values s f = arrs s ! values_ref (objs s ! f)"

definition Field_init :: "field_class \<Rightarrow> int \<Rightarrow> variable \<Rightarrow> state \<Rightarrow> nat res" where
  "Field_init c n d s =
     (case np_full (max_alloc s) n d of
        Inl e \<Rightarrow> (Inl e, s)
      | Inr arr \<Rightarrow>
          (Inr (length (objs s)),
           s\<lparr>objs := objs s @ [\<lparr>cls = c, num_vars = n, default_var = d,
                                 values_ref = length (arrs s)\<rparr>],
             arrs := arrs s @ [arr]\<rparr>))"

definition field_type :: "state \<Rightarrow> nat \<Rightarrow> string" where
  "field_type s f = var_type (default_var (objs s ! f))"

definition domain :: "state \<Rightarrow> nat \<Rightarrow> error + string" where
  "domain s f =
     (case cls (objs s ! f) of
        FieldBase \<Rightarrow> Inl NotImplementedError
      | CellField \<Rightarrow> Inr ''cell''
      | FaceField \<Rightarrow> Inr ''face''
      | NodeField \<Rightarrow> Inr ''node'')"

definition len :: "state \<Rightarrow> nat \<Rightarrow> int" where
  "len s f = num_vars (objs s ! f)"

subsection \<open>Queries and mutation\<close>

definition getitem :: "nat \<Rightarrow> int \<Rightarrow> state \<Rightarrow> variable res" where
  "getitem f index s =
     (case np_index (length (self_values s f)) index of
        Inl e \<Rightarrow> (Inl e, s)
      | Inr k \<Rightarrow> (Inr (self_values s f ! k), s))"

text \<open>\<open>write_slot\<close> is the store \<open>self._values[i] = v\<close> at a position already checked.\<close>

definition write_slot :: "nat \<Rightarrow> nat \<Rightarrow> variable \<Rightarrow> state \<Rightarrow> state" where
  "write_slot f k v s =
     s\<lparr>arrs := (arrs s)[values_ref (objs s ! f) := (self_values s f)[k := v]]\<rparr>"

definition setitem :: "nat \<Rightarrow> int \<Rightarrow> variable \<Rightarrow> state \<Rightarrow> unit res" where
  "setitem f index v s =
     (if var_type v \<noteq> var_type (default_var (objs s ! f)) then (Inl TypeError, s)
      else case np_index (length (self_values s f)) index of
             Inl e \<Rightarrow> (Inl e, s)
           | Inr k \<Rightarrow> (Inr (), write_slot f k v s))"

definition filter_field :: "nat \<Rightarrow> (variable \<Rightarrow> bool) \<Rightarrow> state \<Rightarrow> int list res" where
  "filter_field f func s =
     (case (np_vectorize (\<lambda>x. Inr (func x)) (self_values s f) :: error + bool list) of
        Inl e \<Rightarrow> (Inl e, s)
      | Inr mask_arr \<Rightarrow>
          (Inr (map int (filter (\<lambda>i. mask_arr ! i) [0..<length mask_arr])), s))"

text \<open>
  The loops of \<open>for_each\<close> and \<open>at\<close> have the same body: read the slot, call the
  function, and store the result when it is a \<open>Variable\<close> of the field's type.
  \<open>apply_func\<close> runs that body over the indices in the order given.
\<close>

fun apply_func :: "(variable \<Rightarrow> variable option) \<Rightarrow> nat \<Rightarrow> int list \<Rightarrow> state \<Rightarrow> unit res" where
  "apply_func g f [] s = (Inr (), s)"
| "apply_func g f (i # is) s =
     (case np_index (length (self_values s f)) i of
        Inl e \<Rightarrow> (Inl e, s)
      | Inr k \<Rightarrow>
          (case g (self_values s f ! k) of
             None \<Rightarrow> apply_func g f is s
           | Some r \<Rightarrow>
               if var_type r = field_type s f then apply_func g f is (write_slot f k r s)
               else apply_func g f is s))"

definition for_each :: "nat \<Rightarrow> transform \<Rightarrow> state \<Rightarrow> unit res" where
  "for_each f func s =
     (case func of
        NotCallable \<Rightarrow> (Inl TypeError, s)
      | Callable g \<Rightarrow> apply_func g f (map int [0..<nat (num_vars (objs s ! f))]) s)"

definition at_field :: "nat \<Rightarrow> int list \<Rightarrow> transform \<Rightarrow> state \<Rightarrow> unit res" where
  "at_field f indexes func s =
     (case func of
        NotCallable \<Rightarrow> (Inl TypeError, s)
      | Callable g \<Rightarrow>
          (case indexes of
             [] \<Rightarrow> (Inl ValueError, s)
           | x # xs \<Rightarrow>
               let min_index = fold min xs x; max_index = fold max xs x in
               if min_index < 0 \<or> max_index \<ge> num_vars (objs s ! f)
               then (Inl IndexError, s)
               else apply_func g f indexes s))"

definition check_fields_compatible :: "state \<Rightarrow> nat \<Rightarrow> nat \<Rightarrow> error + unit" where
  "check_fields_compatible s f other =
     (if num_vars (objs s ! f) \<noteq> num_vars (objs s ! other) then Inl ValueError
      else if field_type s f \<noteq> field_type s other then Inl TypeError
      else case domain s f of
             Inl e \<Rightarrow> Inl e
           | Inr d1 \<Rightarrow>
               (case domain s other of
                  Inl e \<Rightarrow> Inl e
                | Inr d2 \<Rightarrow> if d1 \<noteq> d2 then Inl TypeError else Inr ()))"

text \<open>
  \<open>except (ValueError, TypeError) as e: raise TypeError(...)\<close>: the two exceptions of
  the compatibility check become \<open>TypeError\<close>, any other one passes through.
\<close>

definition reraise :: "error \<Rightarrow> error" where
  "reraise e = (if e = ValueError \<or> e = TypeError then TypeError else e)"

definition assign :: "nat \<Rightarrow> operand \<Rightarrow> state \<Rightarrow> unit res" where
  "assign f other s =
     (case other of
        OField g \<Rightarrow>
          (case check_fields_compatible s f g of
             Inl e \<Rightarrow> (Inl (reraise e), s)
           | Inr u \<Rightarrow>
               (Inr (),
                s\<lparr>objs := (objs s)[f := (objs s ! f)\<lparr>values_ref := values_ref (objs s ! g)\<rparr>]\<rparr>))
      | OVar v \<Rightarrow>
          if var_type v \<noteq> field_type s f then (Inl TypeError, s)
          else (case np_full (max_alloc s) (num_vars (objs s ! f)) v of
                  Inl e \<Rightarrow> (Inl e, s)
                | Inr arr \<Rightarrow>
                    (Inr (),
                     s\<lparr>objs := (objs s)[f := (objs s ! f)\<lparr>values_ref := length (arrs s)\<rparr>],
                       arrs := arrs s @ [arr]\<rparr>))
      | OOther \<Rightarrow> (Inl TypeError, s))"

subsection \<open>Arithmetic\<close>

text \<open>
  Every arithmetic method ends with
  \<open>result = self.__class__(self._num_vars, self._default)\<close>,
  \<open>result._values = <new array>\<close>, \<open>return result\<close>. \<open>new_result\<close> is that tail: the
  constructor runs first, then the new array is computed (and may raise), then it
  replaces the array the constructor made.
\<close>

definition new_result :: "nat \<Rightarrow> (error + variable list) \<Rightarrow> state \<Rightarrow> nat res" where
  "new_result f computed s =
     (case Field_init (cls (objs s ! f)) (num_vars (objs s ! f)) (default_var (objs s ! f)) s of
        (Inl e, s1) \<Rightarrow> (Inl e, s1)
      | (Inr r, s1) \<Rightarrow>
          (case computed of
             Inl e \<Rightarrow> (Inl e, s1)
           | Inr arr \<Rightarrow>
               (Inr r,
                s1\<lparr>objs := (objs s1)[r := (objs s1 ! r)\<lparr>values_ref := length (arrs s1)\<rparr>],
                   arrs := arrs s1 @ [arr]\<rparr>)))"

definition add :: "nat \<Rightarrow> operand \<Rightarrow> state \<Rightarrow> nat res" where
  "add f other s =
     (case other of
        OField g \<Rightarrow>
          (case check_fields_compatible s f g of
             Inl e \<Rightarrow> (Inl (reraise e), s)
           | Inr u \<Rightarrow> new_result f (np_binop var_add (self_values s f) (self_values s g)) s)
      | OVar v \<Rightarrow>
          if var_type v \<noteq> var_type (default_var (objs s ! f)) then (Inl TypeError, s)
          else new_result f (np_vectorize (\<lambda>x. var_add x v) (self_values s f)) s
      | OOther \<Rightarrow> (Inl TypeError, s))"

definition sub :: "nat \<Rightarrow> operand \<Rightarrow> state \<Rightarrow> nat res" where
  "sub f other s =
     (case other of
        OField g \<Rightarrow>
          (case check_fields_compatible s f g of
             Inl e \<Rightarrow> (Inl (reraise e), s)
           | Inr u \<Rightarrow> new_result f (np_binop var_sub (self_values s f) (self_values s g)) s)
      | OVar v \<Rightarrow>
          if var_type v \<noteq> var_type (default_var (objs s ! f)) then (Inl TypeError, s)
          else new_result f (np_vectorize (\<lambda>x. var_sub x v) (self_values s f)) s
      | OOther \<Rightarrow> (Inl TypeError, s))"

text \<open>
  \<open>isinstance(other, Scalar)\<close> holds of a variable of kind Scalar only; the array is
  then multiplied elementwise by it.
\<close>

definition mul :: "nat \<Rightarrow> operand \<Rightarrow> state \<Rightarrow> nat res" where
  "mul f other s =
     (case other of
        OVar (Scalar k) \<Rightarrow> new_result f (Inr (map (\<lambda>x. var_mul x k) (self_values s f))) s
      | _ \<Rightarrow> (Inl TypeError, s))"

definition neg :: "nat \<Rightarrow> state \<Rightarrow> nat res" where
  "neg f s = new_result f (Inr (map var_neg (self_values s f))) s"

definition abs_field :: "nat \<Rightarrow> state \<Rightarrow> nat res" where
  "abs_field f s = new_result f (Inr (map var_abs (self_values s f))) s"

subsection \<open>Fields in a state\<close>

text \<open>
  A field of a state is \<open>live\<close> when it is one of the state's objects and its array is one
  of the state's arrays, \<open>homogeneous\<close> when every stored value has the type of its
  default, and \<open>well_formed\<close> when moreover its array has \<open>_num_vars\<close> slots and
  that number is one \<open>np.full\<close> grants (\<open>allocatable\<close>). The constructor builds
  well-formed fields, and only such: the array of a field was made by numpy.
\<close>

definition allocatable :: "state \<Rightarrow> int \<Rightarrow> bool" where
  "allocatable s n \<longleftrightarrow> 0 \<le> n \<and> n < np_size_limit \<and> n \<le> max_alloc s"

definition live :: "state \<Rightarrow> nat \<Rightarrow> bool" where
  "live s f \<longleftrightarrow> f < length (objs s) \<and> values_ref (objs s ! f) < length (arrs s)"

definition homogeneous :: "state \<Rightarrow> nat \<Rightarrow> bool" where
  "homogeneous s f \<longleftrightarrow> (\<forall>v \<in> set (self_values s f). var_type v = field_type s f)"

definition well_formed :: "state \<Rightarrow> nat \<Rightarrow> bool" where
  "well_formed s f \<longleftrightarrow>
     live s f \<and> int (length (self_values s f)) = num_vars (objs s ! f) \<and> homogeneous s f \<and>
     allocatable s (num_vars (objs s ! f))"

text \<open>
  \<open>extends s s'\<close>: every object and every array of \<open>s\<close> is in \<open>s'\<close>, unchanged, at the
  same position. \<open>returns_new_field s f out zs\<close>: the call returned a field that \<open>s\<close>
  did not have, of the class, \<open>_num_vars\<close> and \<open>_default\<close> of \<open>f\<close>, whose array is
  not an array of \<open>s\<close> and holds \<open>zs\<close>, and left \<open>s\<close> as it was.
\<close>

definition extends :: "state \<Rightarrow> state \<Rightarrow> bool" where
  "extends s s' \<longleftrightarrow>
     take (length (objs s)) (objs s') = objs s \<and> take (length (arrs s)) (arrs s') = arrs s"

definition returns_new_field :: "state \<Rightarrow> nat \<Rightarrow> nat res \<Rightarrow> variable list \<Rightarrow> bool" where
  "returns_new_field s f out zs \<longleftrightarrow>
     (case out of
        (Inl e, s') \<Rightarrow> False
      | (Inr r, s') \<Rightarrow>
          extends s s' \<and>
          length (objs s) \<le> r \<and> r < length (objs s') \<and>
          length (arrs s) \<le> values_ref (objs s' ! r) \<and>
          values_ref (objs s' ! r) < length (arrs s') \<and>
          cls (objs s' ! r) = cls (objs s ! f) \<and>
          num_vars (objs s' ! r) = num_vars (objs s ! f) \<and>
          default_var (objs s' ! r) = default_var (objs s ! f) \<and>
          self_values s' r = zs)"

subsection \<open>Example states\<close>

text \<open>
  A state with one cell field of scalars holding the given numbers, a predicate
  "the value is a scalar greater than \<open>c\<close>", and a transform that adds one to a scalar.
\<close>

definition scalar_field_state :: "real list \<Rightarrow> state" where
  "scalar_field_state xs =
     \<lparr>objs = [\<lparr>cls = CellField, num_vars = int (length xs), default_var = Scalar 0,
               values_ref = 0\<rparr>],
      arrs = [map Scalar xs], max_alloc = 1000000\<rparr>"

definition scalar_gt :: "real \<Rightarrow> variable \<Rightarrow> bool" where
  "scalar_gt c v = (case v of Scalar x \<Rightarrow> c < x | _ \<Rightarrow> False)"

definition add_one :: "variable \<Rightarrow> variable option" where
  "add_one v = (case v of Scalar x \<Rightarrow> Some (Scalar (x + 1)) | _ \<Rightarrow> None)"

text \<open>Two compatible cell fields of scalars, \<open>[1, -2]\<close> and \<open>[10, 20]\<close>.\<close>

definition two_fields :: state where
  "two_fields =
     \<lparr>objs = [\<lparr>cls = CellField, num_vars = 2, default_var = Scalar 0, values_ref = 0\<rparr>,
              \<lparr>cls = CellField, num_vars = 2, default_var = Scalar 0, values_ref = 1\<rparr>],
      arrs = [[Scalar 1, Scalar (- 2)], [Scalar 10, Scalar 20]], max_alloc = 1000000\<rparr>"

text \<open>
  The program \<open>a = CellField(2, Scalar(1))\<close>, \<open>c = CellField(2, Scalar(0))\<close>,
  \<open>c.assign(a)\<close>, \<open>a[0] = Scalar(7)\<close>, \<open>c[0]\<close>, run in the empty state.
\<close>

definition aliasing_run :: "variable res" where
  "aliasing_run =
     (case Field_init CellField 2 (Scalar 1) empty_state of
        (Inl e, s1) \<Rightarrow> (Inl e, s1)
      | (Inr a, s1) \<Rightarrow>
     (case Field_init CellField 2 (Scalar 0) s1 of
        (Inl e, s2) \<Rightarrow> (Inl e, s2)
      | (Inr c, s2) \<Rightarrow>
     (case assign c (OField a) s2 of
        (Inl e, s3) \<Rightarrow> (Inl e, s3)
      | (Inr u, s3) \<Rightarrow>
     (case setitem a 0 (Scalar 7) s3 of
        (Inl e, s4) \<Rightarrow> (Inl e, s4)
      | (Inr u, s4) \<Rightarrow> getitem c 0 s4))))"

subsection \<open>Sequences of calls\<close>

text \<open>
  The four mutating methods as calls on the fields of a state, and the run of a list of
  calls, which stops at the first call that raises. \<open>names_fields_of n c\<close>: the fields
  the call names are among the first \<open>n\<close> objects.
\<close>

datatype call =
    SetItem nat int variable
  | ForEach nat transform
  | At nat "int list" transform
  | Assign nat operand

fun exec :: "call \<Rightarrow> state \<Rightarrow> unit res" where
  "exec (SetItem f i v) s = setitem f i v s"
| "exec (ForEach f func) s = for_each f func s"
| "exec (At f indexes func) s = at_field f indexes func s"
| "exec (Assign f other) s = assign f other s"

fun run :: "call list \<Rightarrow> state \<Rightarrow> unit res" where
  "run [] s = (Inr (), s)"
| "run (c # cs) s =
     (case exec c s of
        (Inl e, s') \<Rightarrow> (Inl e, s')
      | (Inr u, s') \<Rightarrow> run cs s')"

fun names_fields_of :: "nat \<Rightarrow> call \<Rightarrow> bool" where
  "names_fields_of n (SetItem f i v) \<longleftrightarrow> f < n"
| "names_fields_of n (ForEach f func) \<longleftrightarrow> f < n"
| "names_fields_of n (At f indexes func) \<longleftrightarrow> f < n"
| "names_fields_of n (Assign f (OField g)) \<longleftrightarrow> f < n \<and> g < n"
| "names_fields_of n (Assign f other) \<longleftrightarrow> f < n"

text \<open>
  \<open>all_homogeneous s\<close>: every field of the state is live and every value it stores has
  the type of its default.
\<close>

definition all_homogeneous :: "state \<Rightarrow> bool" where
  "all_homogeneous s \<longleftrightarrow> (\<forall>f \<in> set [0..<length (objs s)]. live s f \<and> homogeneous s f)"

subsection \<open>The effect of a transform on a slot\<close>

text \<open>
  The spec's replace-or-skip: the slot takes the transform's result when that is a
  variable of the field's type, and keeps its value on any other result.
  \<open>set_values f arr s\<close> is the state \<open>s\<close> with \<open>arr\<close> stored in the array of \<open>f\<close>.
\<close>

definition replace_or_skip :: "(variable \<Rightarrow> variable option) \<Rightarrow> string \<Rightarrow> variable \<Rightarrow> variable" where
  "replace_or_skip g ty x =
     (case g x of None \<Rightarrow> x | Some r \<Rightarrow> if var_type r = ty then r else x)"

definition set_values :: "nat \<Rightarrow> variable list \<Rightarrow> state \<Rightarrow> state" where
  "set_values f arr s = s\<lparr>arrs := (arrs s)[values_ref (objs s ! f) := arr]\<rparr>"

text \<open>A run of each of the four mutating methods on the state \<open>two_fields\<close>.\<close>

definition example_calls :: "call list" where
  "example_calls =
     [SetItem 0 0 (Scalar 5), ForEach 1 (Callable add_one), At 0 [1] (Callable add_one),
      Assign 1 (OField 0), Assign 0 (OVar (Scalar 9))]"

section \<open>Properties\<close>

subsection \<open>Arrays\<close>

lemma np_index_bound: "np_index n i = Inr k \<Longrightarrow> k < n"
  by (auto simp: np_index_def split: if_splits)

lemma sequence_map_Inr: "sequence (map (\<lambda>x. Inr (h x)) xs) = Inr (map h xs)"
  by (induction xs) auto

lemma sequence_all_Inr:
  "(\<forall>r \<in> set rs. \<exists>x. r = Inr x) \<Longrightarrow> sequence rs = Inr (map projr rs)"
  by (induction rs rule: sequence.induct) auto

lemma np_binop_elementwise:
  assumes len: "length xs = length ys"
    and ok: "\<And>x y. x \<in> set xs \<Longrightarrow> y \<in> set ys \<Longrightarrow> \<exists>z. h x y = Inr z"
  shows "\<exists>zs. np_binop h xs ys = Inr zs \<and> length zs = length xs \<and>
           (\<forall>i < length xs. h (xs ! i) (ys ! i) = Inr (zs ! i))"
proof -
  have all: "\<forall>r \<in> set (map2 h xs ys). \<exists>z. r = Inr z"
  proof
    fix r assume "r \<in> set (map2 h xs ys)"
    then obtain x y where "(x, y) \<in> set (zip xs ys)" "r = h x y" by auto
    then show "\<exists>z. r = Inr z" using ok by (metis set_zip_leftD set_zip_rightD)
  qed
  let ?zs = "map projr (map2 h xs ys)"
  have "np_binop h xs ys = Inr ?zs"
    using len sequence_all_Inr [OF all] by (simp add: np_binop_def)
  moreover have "length ?zs = length xs" using len by simp
  moreover have "\<forall>i < length xs. h (xs ! i) (ys ! i) = Inr (?zs ! i)"
  proof (intro allI impI)
    fix i assume i: "i < length xs"
    then have "xs ! i \<in> set xs" "ys ! i \<in> set ys" using len by simp_all
    then obtain z where "h (xs ! i) (ys ! i) = Inr z" using ok by blast
    then show "h (xs ! i) (ys ! i) = Inr (?zs ! i)" using i len by simp
  qed
  ultimately show ?thesis by blast
qed

lemma var_add_same_type: "var_type x = var_type y \<Longrightarrow> \<exists>z. var_add x y = Inr z"
  by (cases x; cases y) auto

lemma var_sub_same_type: "var_type x = var_type y \<Longrightarrow> \<exists>z. var_sub x y = Inr z"
  by (cases x; cases y) auto

lemma fold_min_le: "i \<in> set (x # xs) \<Longrightarrow> fold min xs x \<le> (i::int)"
  by (metis Min.set_eq_fold Min_le List.finite_set)

lemma fold_max_ge: "i \<in> set (x # xs) \<Longrightarrow> (i::int) \<le> fold max xs x"
  by (metis Max.set_eq_fold Max_ge List.finite_set)

subsection \<open>The example states\<close>

lemma scalar_field_state_values [simp]:
  "self_values (scalar_field_state xs) 0 = map Scalar xs"
  by (simp add: scalar_field_state_def self_values_def)

lemma scalar_field_state_well_formed:
  "length xs \<le> 1000000 \<Longrightarrow> well_formed (scalar_field_state xs) 0"
  by (auto simp: well_formed_def live_def homogeneous_def field_type_def allocatable_def
      np_size_limit_def scalar_field_state_def self_values_def)

lemma two_fields_well_formed: "well_formed two_fields 0" "well_formed two_fields 1"
  by (auto simp: well_formed_def live_def homogeneous_def field_type_def allocatable_def
      np_size_limit_def two_fields_def self_values_def)

lemma two_fields_compatible: "check_fields_compatible two_fields 0 1 = Inr ()"
  by (simp add: check_fields_compatible_def field_type_def domain_def two_fields_def)

subsection \<open>Construction\<close>

lemma Field_init_neg: "n < 0 \<Longrightarrow> Field_init c n d s = (Inl ValueError, s)"
  by (simp add: Field_init_def np_full_def)

lemma Field_init_too_big:
  "np_size_limit \<le> n \<Longrightarrow> Field_init c n d s = (Inl ValueError, s)"
  by (simp add: Field_init_def np_full_def)

lemma Field_init_no_memory:
  "0 \<le> n \<Longrightarrow> n < np_size_limit \<Longrightarrow> max_alloc s < n \<Longrightarrow>
   Field_init c n d s = (Inl MemoryError, s)"
  by (simp add: Field_init_def np_full_def)

lemma Field_init_ok:
  "allocatable s n \<Longrightarrow> Field_init c n d s =
     (Inr (length (objs s)),
      s\<lparr>objs := objs s @ [\<lparr>cls = c, num_vars = n, default_var = d,
                             values_ref = length (arrs s)\<rparr>],
        arrs := arrs s @ [replicate (nat n) d]\<rparr>)"
  by (simp add: Field_init_def np_full_def allocatable_def)

lemma Field_init_success:
  "Field_init c n d s = (Inr f, s') \<Longrightarrow> allocatable s n"
  by (auto simp: Field_init_def np_full_def allocatable_def split: if_splits)

lemma Field_init_well_formed:
  assumes "Field_init c n d s = (Inr f, s')"
  shows "well_formed s' f"
proof -
  from assms have a: "allocatable s n" by (rule Field_init_success)
  with assms show ?thesis
    by (auto simp: Field_init_ok well_formed_def live_def homogeneous_def field_type_def
        self_values_def allocatable_def)
qed

text \<open>
  C2, as the spec has it: construction with a count of zero or less fails. The source
  has no check of its own: the count goes to \<open>np.full\<close>, which makes an empty array
  for zero. Constructing \<open>CellField(0, Scalar(1))\<close> in the empty state succeeds and
  returns field 0.
\<close>

theorem Field_init_zero_succeeds:
  "fst (Field_init CellField 0 (Scalar 1) empty_state) = Inr 0"
  by (simp add: Field_init_def np_full_def np_size_limit_def empty_state_def)

text \<open>
  C2, amended: for every default, construction with a count below zero raises
  \<open>ValueError\<close> (from \<open>np.full\<close>), and so does a count of \<open>2 ^ 60\<close> or more, which
  numpy cannot represent; a count in between that is more than the process can allocate
  raises \<open>MemoryError\<close>; each of these leaves the state as it was. For every other
  count, zero included, construction succeeds, the new field has \<open>len\<close> equal to the
  count, and \<open>get(i)\<close> is the default for every \<open>i\<close> in \<open>[0, count)\<close>.
\<close>

theorem Field_init_counts:
  "(n < 0 \<or> 2 ^ 60 \<le> n \<longrightarrow> Field_init c n d s = (Inl ValueError, s)) \<and>
   (0 \<le> n \<and> n < 2 ^ 60 \<and> max_alloc s < n \<longrightarrow>
      Field_init c n d s = (Inl MemoryError, s)) \<and>
   (0 \<le> n \<and> n < 2 ^ 60 \<and> n \<le> max_alloc s \<longrightarrow>
      (\<exists>f s'. Field_init c n d s = (Inr f, s') \<and> len s' f = n \<and>
         (\<forall>i. 0 \<le> i \<and> i < n \<longrightarrow> fst (getitem f i s') = Inr d)))"
proof (intro conjI impI)
  assume "n < 0 \<or> 2 ^ 60 \<le> n"
  then show "Field_init c n d s = (Inl ValueError, s)"
    using Field_init_neg [of n c d s] Field_init_too_big [of n c d s]
    by (auto simp: np_size_limit_def)
next
  assume "0 \<le> n \<and> n < 2 ^ 60 \<and> max_alloc s < n"
  then show "Field_init c n d s = (Inl MemoryError, s)"
    using Field_init_no_memory [of n s c d] by (simp add: np_size_limit_def)
next
  assume "0 \<le> n \<and> n < 2 ^ 60 \<and> n \<le> max_alloc s"
  then have a: "allocatable s n" by (simp add: allocatable_def np_size_limit_def)
  show "\<exists>f s'. Field_init c n d s = (Inr f, s') \<and> len s' f = n \<and>
         (\<forall>i. 0 \<le> i \<and> i < n \<longrightarrow> fst (getitem f i s') = Inr d)"
    using a
    by (auto simp: Field_init_ok allocatable_def len_def getitem_def self_values_def
        np_index_def)
qed

theorem Field_init_counts_witness:
  "fst (Field_init NodeField (-2) (Scalar 1) empty_state) = Inl ValueError \<and>
   fst (Field_init NodeField (2 ^ 63) (Scalar 1) empty_state) = Inl ValueError \<and>
   fst (Field_init NodeField 2000000 (Scalar 1) empty_state) = Inl MemoryError \<and>
   (\<exists>f s'. Field_init NodeField 3 (Scalar 1) empty_state = (Inr f, s') \<and> len s' f = 3 \<and>
      fst (getitem f 2 s') = Inr (Scalar 1))"
proof -
  have m: "max_alloc empty_state = 1000000" by (simp add: empty_state_def)
  show ?thesis
    using Field_init_counts [of "-2" NodeField "Scalar 1" empty_state]
      Field_init_counts [of "2 ^ 63" NodeField "Scalar 1" empty_state]
      Field_init_counts [of 2000000 NodeField "Scalar 1" empty_state]
      Field_init_counts [of 3 NodeField "Scalar 1" empty_state]
    by (auto simp: m)
qed

subsection \<open>Indexed reads\<close>

text \<open>
  C3, as the spec has it: \<open>get(-1)\<close> fails. \<open>__getitem__\<close> hands the index to the
  numpy array, where a negative index counts from the end: on the scalar field
  \<open>[1, 2, 3]\<close>, \<open>get(-1)\<close> returns the last value, 3.
\<close>

theorem getitem_negative_index:
  "fst (getitem 0 (-1) (scalar_field_state [1, 2, 3])) = Inr (Scalar 3)"
  by (simp add: getitem_def np_index_def)

text \<open>
  C3, amended: for every well-formed field and every integer index, \<open>get(index)\<close> raises
  \<open>IndexError\<close> if and only if the index is outside \<open>[-count, count)\<close>; \<open>get(i)\<close> for
  \<open>i\<close> in \<open>[0, count)\<close> returns the stored value at \<open>i\<close>, \<open>get(i)\<close> for \<open>i\<close> in
  \<open>[-count, 0)\<close> returns the stored value at \<open>count + i\<close>, \<open>get(count)\<close> fails, and
  no read changes the state.
\<close>

theorem getitem_index_range:
  assumes "well_formed s f"
  shows "(fst (getitem f i s) = Inl IndexError \<longleftrightarrow> i < - len s f \<or> len s f \<le> i) \<and>
         (0 \<le> i \<and> i < len s f \<longrightarrow> getitem f i s = (Inr (self_values s f ! nat i), s)) \<and>
         (- len s f \<le> i \<and> i < 0 \<longrightarrow>
            getitem f i s = (Inr (self_values s f ! nat (len s f + i)), s)) \<and>
         fst (getitem f (len s f) s) = Inl IndexError"
  using assms
  by (auto simp: well_formed_def getitem_def len_def np_index_def)

theorem getitem_index_range_witness:
  "well_formed (scalar_field_state [1, 2, 3]) 0 \<and>
   fst (getitem 0 1 (scalar_field_state [1, 2, 3])) = Inr (Scalar 2) \<and>
   fst (getitem 0 (-2) (scalar_field_state [1, 2, 3])) = Inr (Scalar 2) \<and>
   fst (getitem 0 (-4) (scalar_field_state [1, 2, 3])) = Inl IndexError \<and>
   fst (getitem 0 3 (scalar_field_state [1, 2, 3])) = Inl IndexError"
proof -
  have wf: "well_formed (scalar_field_state [1, 2, 3]) 0"
    by (rule scalar_field_state_well_formed) simp
  have n: "len (scalar_field_state [1, 2, 3]) 0 = 3"
    by (simp add: len_def scalar_field_state_def)
  show ?thesis
    using wf getitem_index_range [OF wf, of 1] getitem_index_range [OF wf, of "-2"]
      getitem_index_range [OF wf, of "-4"]
    by (simp add: n)
qed

subsection \<open>Assignment from a field\<close>

lemma assign_field_same_ref:
  "assign f (OField g) s = (Inr (), s') \<Longrightarrow> f < length (objs s) \<Longrightarrow>
   values_ref (objs s' ! f) = values_ref (objs s ! g)"
  by (auto simp: assign_def split: sum.splits)

text \<open>
  C1: after \<open>c.assign(a)\<close> the two fields must not share storage. \<open>assign\<close> binds
  \<open>self._values\<close> to the very array of the source (\<open>self._values = other._values\<close>),
  while its branch for a single variable and every arithmetic method build a new array.
  In the program \<open>aliasing_run\<close>, \<open>a\<close> holds \<open>Scalar(1)\<close> at index 0 when it is
  assigned to \<open>c\<close>; after \<open>a[0] = Scalar(7)\<close> the read \<open>c[0]\<close> returns
  \<open>Scalar(7)\<close>, where the claim requires \<open>Scalar(1)\<close>.
\<close>

theorem assign_shares_storage:
  "fst aliasing_run = Inr (Scalar 7)"
  by (simp add: aliasing_run_def Field_init_ok allocatable_def np_size_limit_def
      empty_state_def assign_def
      check_fields_compatible_def field_type_def domain_def setitem_def self_values_def
      np_index_def write_slot_def getitem_def numeral_2_eq_2)

subsection \<open>Multiplication by a scalar\<close>

lemma new_result_ok:
  "allocatable s (num_vars (objs s ! f)) \<Longrightarrow>
   new_result f (Inr arr) s =
     (Inr (length (objs s)),
      s\<lparr>objs := objs s @ [\<lparr>cls = cls (objs s ! f), num_vars = num_vars (objs s ! f),
                             default_var = default_var (objs s ! f),
                             values_ref = Suc (length (arrs s))\<rparr>],
        arrs := arrs s @ [replicate (nat (num_vars (objs s ! f))) (default_var (objs s ! f)),
                          arr]\<rparr>)"
  by (simp add: new_result_def Field_init_ok)

lemma new_result_returns:
  assumes "allocatable s (num_vars (objs s ! f))"
  shows "returns_new_field s f (new_result f (Inr zs) s) zs"
  using assms
  by (simp add: new_result_ok returns_new_field_def extends_def self_values_def nth_append)

text \<open>
  C4, as the spec has it: \<open>multiply_by_scalar(2.0)\<close> on the values \<open>[1, 2, 3]\<close> yields
  \<open>[2, 4, 6]\<close>. A plain number such as \<open>2.0\<close> is no instance of \<open>Scalar\<close>; it is an
  operand \<open>OOther\<close>, and \<open>__mul__\<close> raises \<open>TypeError\<close> on it.
\<close>

theorem mul_plain_number:
  "fst (mul 0 OOther (scalar_field_state [1, 2, 3])) = Inl TypeError"
  by (simp add: mul_def)

text \<open>
  C4, amended: for every well-formed field and every number \<open>k\<close>, multiplying the field
  by the variable \<open>Scalar(k)\<close> returns a newly constructed field of the same class,
  count and default whose value at every index is the stored value multiplied by \<open>k\<close>,
  and leaves every existing object and array unchanged; on the scalar field
  \<open>[1, 2, 3]\<close> and \<open>Scalar(2.0)\<close> the result holds \<open>[2, 4, 6]\<close>. For every field,
  multiplying by anything that is not a \<open>Scalar\<close> variable (a plain number, a field, of
  scalars or not, a vector, a tensor, any other object) raises \<open>TypeError\<close> and
  changes nothing.
\<close>

theorem mul_by_scalar:
  "(well_formed s f \<longrightarrow>
      returns_new_field s f (mul f (OVar (Scalar k)) s)
        (map (\<lambda>x. var_mul x k) (self_values s f))) \<and>
   (\<exists>r s'. mul 0 (OVar (Scalar 2)) (scalar_field_state [1, 2, 3]) = (Inr r, s') \<and>
      self_values s' r = [Scalar 2, Scalar 4, Scalar 6]) \<and>
   ((\<forall>k. other \<noteq> OVar (Scalar k)) \<longrightarrow> mul f other s = (Inl TypeError, s))"
proof (intro conjI impI)
  assume "well_formed s f"
  then have "allocatable s (num_vars (objs s ! f))" by (simp add: well_formed_def)
  then show "returns_new_field s f (mul f (OVar (Scalar k)) s)
        (map (\<lambda>x. var_mul x k) (self_values s f))"
    by (simp add: mul_def new_result_returns)
next
  have a: "allocatable (scalar_field_state [1, 2, 3])
             (num_vars (objs (scalar_field_state [1, 2, 3]) ! 0))"
    by (simp add: allocatable_def np_size_limit_def scalar_field_state_def)
  show "\<exists>r s'. mul 0 (OVar (Scalar 2)) (scalar_field_state [1, 2, 3]) = (Inr r, s') \<and>
      self_values s' r = [Scalar 2, Scalar 4, Scalar 6]"
    by (simp add: mul_def new_result_ok [OF a]) (simp add: scalar_field_state_def self_values_def)
next
  assume "\<forall>k. other \<noteq> OVar (Scalar k)"
  then show "mul f other s = (Inl TypeError, s)"
    by (auto simp: mul_def split: operand.splits variable.splits)
qed

theorem mul_by_scalar_witness:
  "well_formed two_fields 0 \<and>
   returns_new_field two_fields 0 (mul 0 (OVar (Scalar 3)) two_fields)
     [Scalar 3, Scalar (- 6)] \<and>
   mul 0 (OField 0) (scalar_field_state [1, 2, 3])
     = (Inl TypeError, scalar_field_state [1, 2, 3]) \<and>
   mul 0 (OVar (Vector [2])) (scalar_field_state [1, 2, 3])
     = (Inl TypeError, scalar_field_state [1, 2, 3])"
proof -
  have v: "self_values two_fields 0 = [Scalar 1, Scalar (- 2)]"
    by (simp add: two_fields_def self_values_def)
  show ?thesis
    using mul_by_scalar [of two_fields 0 3 "OField 0"] two_fields_well_formed(1)
      mul_by_scalar [of "scalar_field_state [1, 2, 3]" 0 _ "OField 0"]
      mul_by_scalar [of "scalar_field_state [1, 2, 3]" 0 _ "OVar (Vector [2])"]
    by (simp add: v)
qed

subsection \<open>Index checks of \<open>at\<close>\<close>

text \<open>
  C5: for every field, every transform and every non-empty list of indices of which at
  least one is outside \<open>[0, count)\<close>, \<open>at\<close> raises \<open>IndexError\<close> and returns the
  state it was given: the check on the smallest and largest index comes before the
  loop, so the function is applied to no slot and no slot is written.
\<close>

theorem at_field_out_of_range:
  assumes "indexes \<noteq> []" and "\<exists>i \<in> set indexes. i < 0 \<or> len s f \<le> i"
  shows "at_field f indexes (Callable g) s = (Inl IndexError, s)"
proof -
  obtain x xs where ix: "indexes = x # xs"
    using assms(1) by (cases indexes) auto
  from assms(2) obtain i where i: "i \<in> set (x # xs)" "i < 0 \<or> len s f \<le> i"
    unfolding ix by blast
  have "fold min xs x < 0 \<or> num_vars (objs s ! f) \<le> fold max xs x"
    using i fold_min_le [OF i(1)] fold_max_ge [OF i(1)] by (auto simp: len_def)
  then show ?thesis
    by (simp add: at_field_def ix Let_def)
qed

theorem at_field_out_of_range_witness:
  "at_field 0 [1, 5] (Callable add_one) (scalar_field_state [1, 2, 3, 4, 5])
     = (Inl IndexError, scalar_field_state [1, 2, 3, 4, 5])"
proof -
  have "\<exists>i \<in> set [1, 5]. i < 0 \<or> len (scalar_field_state [1, 2, 3, 4, 5]) 0 \<le> i"
    by (simp add: len_def scalar_field_state_def)
  then show ?thesis
    by (rule at_field_out_of_range [rotated]) simp
qed

text \<open>
  C10: for every field and every callable transform, \<open>at\<close> with an empty list of
  indices raises an error, the \<open>ValueError\<close> of \<open>min\<close> on an empty sequence, and
  changes nothing; it is not a successful call that does nothing.
\<close>

theorem at_field_empty_indexes:
  "at_field f [] (Callable g) s = (Inl ValueError, s)"
  by (simp add: at_field_def)

subsection \<open>Filtering\<close>

lemma filter_field_nonempty:
  assumes ne: "self_values s f \<noteq> []"
  shows "filter_field f p s =
     (Inr (map int (filter (\<lambda>i. p (self_values s f ! i)) [0..<length (self_values s f)])), s)"
proof -
  have "filter (\<lambda>i. map p (self_values s f) ! i) [0..<length (self_values s f)]
      = filter (\<lambda>i. p (self_values s f ! i)) [0..<length (self_values s f)]"
    by (rule filter_cong) auto
  then show ?thesis using ne
    by (simp add: filter_field_def np_vectorize_def sequence_map_Inr)
qed

text \<open>
  The spec's fields have a positive count. On a field of count zero, which the
  constructor does not refuse, \<open>np.vectorize\<close> without \<open>otypes\<close> raises
  \<open>ValueError\<close>.
\<close>

lemma filter_field_count_zero:
  "fst (filter_field 0 (scalar_gt 2) (snd (Field_init CellField 0 (Scalar 0) empty_state)))
     = Inl ValueError"
  by (simp add: filter_field_def np_vectorize_def Field_init_ok allocatable_def
      np_size_limit_def empty_state_def self_values_def)

lemma filter_field_sorted_set:
  assumes ne: "self_values s f \<noteq> []"
  shows "\<exists>ixs. filter_field f p s = (Inr ixs, s) \<and> sorted_wrt (<) ixs \<and>
           set ixs = {i. 0 \<le> i \<and> i < int (length (self_values s f)) \<and>
                         p (self_values s f ! nat i)}"
proof -
  let ?ks = "filter (\<lambda>i. p (self_values s f ! i)) [0..<length (self_values s f)]"
  have "sorted_wrt (<) ?ks" by (rule sorted_wrt_filter) simp
  then have a: "sorted_wrt (<) (map int ?ks)"
    by (simp add: sorted_wrt_map)
  have b: "set (map int ?ks) =
      {i. 0 \<le> i \<and> i < int (length (self_values s f)) \<and> p (self_values s f ! nat i)}"
  proof (rule set_eqI)
    fix i :: int
    show "i \<in> set (map int ?ks) \<longleftrightarrow>
      i \<in> {i. 0 \<le> i \<and> i < int (length (self_values s f)) \<and> p (self_values s f ! nat i)}"
    proof
      assume "i \<in> set (map int ?ks)"
      then show "i \<in> {i. 0 \<le> i \<and> i < int (length (self_values s f)) \<and>
                         p (self_values s f ! nat i)}"
        by auto
    next
      assume "i \<in> {i. 0 \<le> i \<and> i < int (length (self_values s f)) \<and>
                      p (self_values s f ! nat i)}"
      then have "nat i \<in> set ?ks" "i = int (nat i)" by auto
      then show "i \<in> set (map int ?ks)" by (metis image_eqI set_map)
    qed
  qed
  show ?thesis
    using filter_field_nonempty [OF ne] a b by blast
qed

text \<open>
  C7: for every well-formed field of positive count (the spec's fields: the count is a
  positive integer) and every predicate, \<open>filter\<close> returns exactly the indices in
  \<open>[0, count)\<close> whose stored value satisfies the predicate, in ascending order, and
  leaves the state, every slot with it, as it was; on the scalar field
  \<open>[1, 2, 3, 4, 5]\<close> with the predicate "value > 2" it returns \<open>[2, 3, 4]\<close>.
\<close>

theorem filter_field_indices:
  assumes wf: "well_formed s f" and pos: "0 < len s f"
  shows "(\<exists>ixs. filter_field f p s = (Inr ixs, s) \<and>
            sorted_wrt (<) ixs \<and>
            set ixs = {i. 0 \<le> i \<and> i < len s f \<and> p (self_values s f ! nat i)}) \<and>
         filter_field 0 (scalar_gt 2) (scalar_field_state [1, 2, 3, 4, 5])
           = (Inr [2, 3, 4], scalar_field_state [1, 2, 3, 4, 5])"
proof
  from wf have n: "int (length (self_values s f)) = len s f"
    by (simp add: well_formed_def len_def)
  with pos have ne: "self_values s f \<noteq> []" by auto
  show "\<exists>ixs. filter_field f p s = (Inr ixs, s) \<and> sorted_wrt (<) ixs \<and>
         set ixs = {i. 0 \<le> i \<and> i < len s f \<and> p (self_values s f ! nat i)}"
    using filter_field_sorted_set [OF ne, of p] unfolding n .
next
  show "filter_field 0 (scalar_gt 2) (scalar_field_state [1, 2, 3, 4, 5])
     = (Inr [2, 3, 4], scalar_field_state [1, 2, 3, 4, 5])"
    by (simp add: filter_field_nonempty scalar_gt_def
        upt_rec [of _ "numeral _"] upt_rec [of _ "Suc _"])
qed

theorem filter_field_indices_witness:
  "well_formed (scalar_field_state [4, 1, 5]) 0 \<and>
   0 < len (scalar_field_state [4, 1, 5]) 0 \<and>
   (\<exists>ixs. filter_field 0 (scalar_gt 2) (scalar_field_state [4, 1, 5])
             = (Inr ixs, scalar_field_state [4, 1, 5]) \<and>
      sorted_wrt (<) ixs \<and> 0 \<in> set ixs \<and> 1 \<notin> set ixs \<and> 2 \<in> set ixs)"
proof -
  have wf: "well_formed (scalar_field_state [4, 1, 5]) 0"
    by (rule scalar_field_state_well_formed) simp
  have n: "len (scalar_field_state [4, 1, 5]) 0 = 3"
    by (simp add: len_def scalar_field_state_def)
  then have pos: "0 < len (scalar_field_state [4, 1, 5]) 0" by simp
  from filter_field_indices [OF wf pos, of "scalar_gt 2"]
  obtain ixs where ixs:
    "filter_field 0 (scalar_gt 2) (scalar_field_state [4, 1, 5])
       = (Inr ixs, scalar_field_state [4, 1, 5])"
    "sorted_wrt (<) ixs"
    "set ixs = {i. 0 \<le> i \<and> i < len (scalar_field_state [4, 1, 5]) 0 \<and>
                   scalar_gt 2 (self_values (scalar_field_state [4, 1, 5]) 0 ! nat i)}"
    by blast
  have "0 \<in> set ixs" "1 \<notin> set ixs" "2 \<in> set ixs"
    unfolding ixs(3) n by (simp_all add: scalar_gt_def)
  with wf pos ixs(1,2) show ?thesis by blast
qed

subsection \<open>Arithmetic between fields\<close>

lemma extends_keeps_field:
  assumes "extends s s'" and "live s f"
  shows "objs s' ! f = objs s ! f" and "self_values s' f = self_values s f"
proof -
  from assms have f: "f < length (objs s)" and a: "values_ref (objs s ! f) < length (arrs s)"
    by (simp_all add: live_def)
  from assms(1) have t: "take (length (objs s)) (objs s') = objs s"
    and u: "take (length (arrs s)) (arrs s') = arrs s"
    by (simp_all add: extends_def)
  show o: "objs s' ! f = objs s ! f"
    using f t by (metis nth_take)
  show "self_values s' f = self_values s f"
    unfolding self_values_def o using a u by (metis nth_take)
qed

lemma compatible_types:
  "check_fields_compatible s f g = Inr () \<Longrightarrow>
   num_vars (objs s ! f) = num_vars (objs s ! g) \<and> field_type s f = field_type s g"
  by (auto simp: check_fields_compatible_def split: if_splits sum.splits)

lemma binop_result:
  assumes wf: "well_formed s f" and wg: "well_formed s g"
    and c: "check_fields_compatible s f g = Inr ()"
    and h: "\<And>x y. var_type x = var_type y \<Longrightarrow> \<exists>z. h x y = Inr z"
  shows "\<exists>zs. returns_new_field s f
            (new_result f (np_binop h (self_values s f) (self_values s g)) s) zs \<and>
          length zs = length (self_values s f) \<and>
          (\<forall>i < length (self_values s f).
             h (self_values s f ! i) (self_values s g ! i) = Inr (zs ! i))"
proof -
  from compatible_types [OF c] have n: "num_vars (objs s ! f) = num_vars (objs s ! g)"
    and t: "field_type s f = field_type s g" by simp_all
  from wf wg n have len: "length (self_values s f) = length (self_values s g)"
    by (simp add: well_formed_def)
  have ok: "\<exists>z. h x y = Inr z"
    if "x \<in> set (self_values s f)" "y \<in> set (self_values s g)" for x y
  proof -
    from that wf wg t have "var_type x = var_type y"
      by (simp add: well_formed_def homogeneous_def)
    then show ?thesis by (rule h)
  qed
  from np_binop_elementwise [of "self_values s f" "self_values s g" h, OF len ok]
  obtain zs where zs: "np_binop h (self_values s f) (self_values s g) = Inr zs"
    "length zs = length (self_values s f)"
    "\<forall>i < length (self_values s f). h (self_values s f ! i) (self_values s g ! i) = Inr (zs ! i)"
    by blast
  from wf have "allocatable s (num_vars (objs s ! f))" by (simp add: well_formed_def)
  then have "returns_new_field s f (new_result f (Inr zs) s) zs" by (rule new_result_returns)
  with zs show ?thesis by auto
qed

text \<open>
  C6: for every pair of well-formed, compatible fields \<open>f\<close> and \<open>g\<close>, \<open>f + g\<close>,
  \<open>f - g\<close>, \<open>-f\<close> and \<open>abs(f)\<close> each return a newly constructed field of the class,
  count and default of \<open>f\<close>, whose array is a new one; every object and array of the
  state before the call, the operands among them, is unchanged; and the value of the
  result at every index is the operation on the operands' values at that index.
\<close>

theorem arithmetic_returns_new_field:
  assumes wf: "well_formed s f" and wg: "well_formed s g"
    and c: "check_fields_compatible s f g = Inr ()"
  shows "(\<exists>zs. returns_new_field s f (add f (OField g) s) zs \<and>
            length zs = length (self_values s f) \<and>
            (\<forall>i < length (self_values s f).
               var_add (self_values s f ! i) (self_values s g ! i) = Inr (zs ! i))) \<and>
         (\<exists>zs. returns_new_field s f (sub f (OField g) s) zs \<and>
            length zs = length (self_values s f) \<and>
            (\<forall>i < length (self_values s f).
               var_sub (self_values s f ! i) (self_values s g ! i) = Inr (zs ! i))) \<and>
         returns_new_field s f (neg f s) (map var_neg (self_values s f)) \<and>
         returns_new_field s f (abs_field f s) (map var_abs (self_values s f))"
proof (intro conjI)
  from wf have n: "allocatable s (num_vars (objs s ! f))" by (simp add: well_formed_def)
  show "\<exists>zs. returns_new_field s f (add f (OField g) s) zs \<and>
            length zs = length (self_values s f) \<and>
            (\<forall>i < length (self_values s f).
               var_add (self_values s f ! i) (self_values s g ! i) = Inr (zs ! i))"
    using binop_result [OF wf wg c var_add_same_type] by (simp add: add_def c)
  show "\<exists>zs. returns_new_field s f (sub f (OField g) s) zs \<and>
            length zs = length (self_values s f) \<and>
            (\<forall>i < length (self_values s f).
               var_sub (self_values s f ! i) (self_values s g ! i) = Inr (zs ! i))"
    using binop_result [OF wf wg c var_sub_same_type] by (simp add: sub_def c)
  show "returns_new_field s f (neg f s) (map var_neg (self_values s f))"
    unfolding neg_def using n by (rule new_result_returns)
  show "returns_new_field s f (abs_field f s) (map var_abs (self_values s f))"
    unfolding abs_field_def using n by (rule new_result_returns)
qed

lemma two_fields_values [simp]:
  "self_values two_fields 0 = [Scalar 1, Scalar (- 2)]"
  "self_values two_fields (Suc 0) = [Scalar 10, Scalar 20]"
  by (simp_all add: two_fields_def self_values_def)

theorem arithmetic_returns_new_field_witness:
  "well_formed two_fields 0 \<and> well_formed two_fields 1 \<and>
   check_fields_compatible two_fields 0 1 = Inr () \<and>
   (\<exists>zs. returns_new_field two_fields 0 (add 0 (OField 1) two_fields) zs \<and>
      zs ! 0 = Scalar 11 \<and> zs ! 1 = Scalar 18) \<and>
   (\<exists>zs. returns_new_field two_fields 0 (sub 0 (OField 1) two_fields) zs \<and>
      zs ! 0 = Scalar (- 9) \<and> zs ! 1 = Scalar (- 22)) \<and>
   returns_new_field two_fields 0 (neg 0 two_fields) [Scalar (- 1), Scalar 2] \<and>
   returns_new_field two_fields 0 (abs_field 0 two_fields) [Scalar 1, Scalar 2]"
proof -
  note r = arithmetic_returns_new_field
    [OF two_fields_well_formed(1) two_fields_well_formed(2) two_fields_compatible]
  from r obtain zs where zs: "returns_new_field two_fields 0 (add 0 (OField 1) two_fields) zs"
    "\<forall>i < length (self_values two_fields 0).
       var_add (self_values two_fields 0 ! i) (self_values two_fields 1 ! i) = Inr (zs ! i)"
    by blast
  from zs(2) [rule_format, of 0] zs(2) [rule_format, of 1]
  have a: "zs ! 0 = Scalar 11" "zs ! 1 = Scalar 18" by simp_all
  from r obtain ws where ws: "returns_new_field two_fields 0 (sub 0 (OField 1) two_fields) ws"
    "\<forall>i < length (self_values two_fields 0).
       var_sub (self_values two_fields 0 ! i) (self_values two_fields 1 ! i) = Inr (ws ! i)"
    by blast
  from ws(2) [rule_format, of 0] ws(2) [rule_format, of 1]
  have b: "ws ! 0 = Scalar (- 9)" "ws ! 1 = Scalar (- 22)" by simp_all
  from r have n: "returns_new_field two_fields 0 (neg 0 two_fields) [Scalar (- 1), Scalar 2]"
    "returns_new_field two_fields 0 (abs_field 0 two_fields) [Scalar 1, Scalar 2]"
    by simp_all
  show ?thesis
    using two_fields_well_formed two_fields_compatible zs(1) a ws(1) b n by blast
qed

subsection \<open>Kind homogeneity\<close>

lemma all_homogeneousD:
  "all_homogeneous s \<Longrightarrow> f < length (objs s) \<Longrightarrow>
   values_ref (objs s ! f) < length (arrs s) \<and>
   (\<forall>v \<in> set (arrs s ! values_ref (objs s ! f)). var_type v = var_type (default_var (objs s ! f)))"
  by (simp add: all_homogeneous_def live_def homogeneous_def self_values_def field_type_def)

lemma all_homogeneousI:
  assumes "\<And>f. f < length (objs s) \<Longrightarrow>
   values_ref (objs s ! f) < length (arrs s) \<and>
   (\<forall>v \<in> set (arrs s ! values_ref (objs s ! f)). var_type v = var_type (default_var (objs s ! f)))"
  shows "all_homogeneous s"
  using assms
  by (simp add: all_homogeneous_def live_def homogeneous_def self_values_def field_type_def)

lemma write_slot_objs [simp]: "objs (write_slot f k v s) = objs s"
  by (simp add: write_slot_def)

lemma write_slot_homogeneous:
  assumes ok: "all_homogeneous s" and f: "f < length (objs s)"
    and k: "k < length (self_values s f)" and v: "var_type v = field_type s f"
  shows "all_homogeneous (write_slot f k v s)"
proof (rule all_homogeneousI)
  fix h assume "h < length (objs (write_slot f k v s))"
  then have h: "h < length (objs s)" by simp
  let ?a = "values_ref (objs s ! f)"
  let ?arr = "arrs s ! ?a"
  note F = all_homogeneousD [OF ok f]
  note H = all_homogeneousD [OF ok h]
  have arrs': "arrs (write_slot f k v s) = (arrs s)[?a := ?arr[k := v]]"
    by (simp add: write_slot_def self_values_def)
  have k': "k < length ?arr" using k by (simp add: self_values_def)
  show "values_ref (objs (write_slot f k v s) ! h) < length (arrs (write_slot f k v s)) \<and>
        (\<forall>x \<in> set (arrs (write_slot f k v s) ! values_ref (objs (write_slot f k v s) ! h)).
           var_type x = var_type (default_var (objs (write_slot f k v s) ! h)))"
  proof (cases "values_ref (objs s ! h) = ?a")
    case True
    have "?arr ! k \<in> set ?arr" using k' by simp
    then have same: "var_type (default_var (objs s ! h)) = var_type (default_var (objs s ! f))"
      using F H True by metis
    have "\<forall>x \<in> set (?arr[k := v]). var_type x = var_type (default_var (objs s ! h))"
    proof
      fix x assume "x \<in> set (?arr[k := v])"
      then have "x = v \<or> x \<in> set ?arr"
        using set_update_subset_insert [of ?arr k v] by auto
      then show "var_type x = var_type (default_var (objs s ! h))"
        using v same H True by (auto simp: field_type_def)
    qed
    then show ?thesis using True F by (simp add: arrs')
  next
    case False
    then show ?thesis using H by (simp add: arrs')
  qed
qed

lemma apply_func_homogeneous:
  "all_homogeneous s \<Longrightarrow> f < length (objs s) \<Longrightarrow>
   all_homogeneous (snd (apply_func g f is s)) \<and> objs (snd (apply_func g f is s)) = objs s"
proof (induction "is" arbitrary: s)
  case Nil
  then show ?case by simp
next
  case (Cons i "is")
  show ?case
  proof (cases "np_index (length (self_values s f)) i")
    case (Inl e)
    then show ?thesis using Cons.prems by simp
  next
    case (Inr k)
    then have k: "k < length (self_values s f)" by (rule np_index_bound)
    show ?thesis
    proof (cases "g (self_values s f ! k)")
      case None
      then show ?thesis using Inr Cons by simp
    next
      case (Some r)
      show ?thesis
      proof (cases "var_type r = field_type s f")
        case True
        have "all_homogeneous (write_slot f k r s)"
          using Cons.prems k True by (rule write_slot_homogeneous)
        moreover have "f < length (objs (write_slot f k r s))" using Cons.prems by simp
        ultimately show ?thesis using Cons.IH [of "write_slot f k r s"] Inr Some True by simp
      next
        case False
        then show ?thesis using Inr Some Cons by simp
      qed
    qed
  qed
qed

lemma setitem_homogeneous:
  assumes "all_homogeneous s" "f < length (objs s)" "setitem f i v s = (Inr (), s')"
  shows "all_homogeneous s' \<and> length (objs s') = length (objs s)"
proof -
  from assms(3) obtain k where v: "var_type v = field_type s f"
    and k: "np_index (length (self_values s f)) i = Inr k" and s': "s' = write_slot f k v s"
    by (auto simp: setitem_def field_type_def split: if_splits sum.splits)
  from k have "k < length (self_values s f)" by (rule np_index_bound)
  with assms(1,2) v show ?thesis unfolding s' by (simp add: write_slot_homogeneous)
qed

lemma for_each_homogeneous:
  assumes "all_homogeneous s" "f < length (objs s)"
  shows "all_homogeneous (snd (for_each f func s)) \<and>
         length (objs (snd (for_each f func s))) = length (objs s)"
  using assms apply_func_homogeneous [OF assms]
  by (cases func) (simp_all add: for_each_def)

lemma at_field_homogeneous:
  assumes "all_homogeneous s" "f < length (objs s)"
  shows "all_homogeneous (snd (at_field f indexes func s)) \<and>
         length (objs (snd (at_field f indexes func s))) = length (objs s)"
  using assms apply_func_homogeneous [OF assms]
  by (cases func; cases indexes) (simp_all add: at_field_def Let_def del: apply_func.simps)

lemma assign_field_homogeneous:
  assumes ok: "all_homogeneous s" and f: "f < length (objs s)" and g: "g < length (objs s)"
    and a: "assign f (OField g) s = (Inr (), s')"
  shows "all_homogeneous s' \<and> length (objs s') = length (objs s)"
proof -
  from a have c: "check_fields_compatible s f g = Inr ()"
    and s': "s' = s\<lparr>objs := (objs s)[f := (objs s ! f)\<lparr>values_ref := values_ref (objs s ! g)\<rparr>]\<rparr>"
    by (auto simp: assign_def split: sum.splits)
  from compatible_types [OF c]
  have t: "var_type (default_var (objs s ! f)) = var_type (default_var (objs s ! g))"
    by (simp add: field_type_def)
  have "all_homogeneous s'"
  proof (rule all_homogeneousI)
    fix h assume "h < length (objs s')"
    then have h: "h < length (objs s)" by (simp add: s')
    show "values_ref (objs s' ! h) < length (arrs s') \<and>
        (\<forall>x \<in> set (arrs s' ! values_ref (objs s' ! h)).
           var_type x = var_type (default_var (objs s' ! h)))"
    proof (cases "h = f")
      case True
      then show ?thesis using all_homogeneousD [OF ok g] f t by (simp add: s')
    next
      case False
      then show ?thesis using all_homogeneousD [OF ok h] by (simp add: s')
    qed
  qed
  then show ?thesis by (simp add: s')
qed

lemma assign_var_homogeneous:
  assumes ok: "all_homogeneous s" and f: "f < length (objs s)"
    and a: "assign f (OVar v) s = (Inr (), s')"
  shows "all_homogeneous s' \<and> length (objs s') = length (objs s)"
proof -
  from a have v: "var_type v = var_type (default_var (objs s ! f))"
    and n: "0 \<le> num_vars (objs s ! f)"
    and s': "s' = s\<lparr>objs := (objs s)[f := (objs s ! f)\<lparr>values_ref := length (arrs s)\<rparr>],
                    arrs := arrs s @ [replicate (nat (num_vars (objs s ! f))) v]\<rparr>"
    by (auto simp: assign_def np_full_def field_type_def split: if_splits)
  have "all_homogeneous s'"
  proof (rule all_homogeneousI)
    fix h assume "h < length (objs s')"
    then have h: "h < length (objs s)" by (simp add: s')
    show "values_ref (objs s' ! h) < length (arrs s') \<and>
        (\<forall>x \<in> set (arrs s' ! values_ref (objs s' ! h)).
           var_type x = var_type (default_var (objs s' ! h)))"
    proof (cases "h = f")
      case True
      then show ?thesis using f v by (simp add: s')
    next
      case False
      then show ?thesis using all_homogeneousD [OF ok h] by (simp add: s' nth_append)
    qed
  qed
  then show ?thesis by (simp add: s')
qed

lemma exec_homogeneous:
  assumes ok: "all_homogeneous s" and nm: "names_fields_of (length (objs s)) c"
    and ex: "exec c s = (Inr (), s')"
  shows "all_homogeneous s' \<and> length (objs s') = length (objs s)"
proof (cases c)
  case (SetItem f i v)
  with nm ex have "f < length (objs s)" "setitem f i v s = (Inr (), s')" by simp_all
  then show ?thesis by (rule setitem_homogeneous [OF ok])
next
  case (ForEach f func)
  with nm ex have f: "f < length (objs s)" and s': "snd (for_each f func s) = s'" by simp_all
  from for_each_homogeneous [OF ok f, of func] show ?thesis unfolding s' .
next
  case (At f indexes func)
  with nm ex have f: "f < length (objs s)" and s': "snd (at_field f indexes func s) = s'"
    by simp_all
  from at_field_homogeneous [OF ok f, of indexes func] show ?thesis unfolding s' .
next
  case (Assign f other)
  show ?thesis
  proof (cases other)
    case (OField g)
    with Assign nm ex have "f < length (objs s)" "g < length (objs s)"
      "assign f (OField g) s = (Inr (), s')" by simp_all
    then show ?thesis by (rule assign_field_homogeneous [OF ok])
  next
    case (OVar v)
    with Assign nm ex have "f < length (objs s)" "assign f (OVar v) s = (Inr (), s')"
      by simp_all
    then show ?thesis by (rule assign_var_homogeneous [OF ok])
  next
    case OOther
    with Assign ex show ?thesis by (simp add: assign_def)
  qed
qed

lemma run_homogeneous:
  "all_homogeneous s \<Longrightarrow> \<forall>c \<in> set cs. names_fields_of (length (objs s)) c \<Longrightarrow>
   run cs s = (Inr (), s') \<Longrightarrow> all_homogeneous s'"
proof (induction cs arbitrary: s)
  case Nil
  then show ?case by simp
next
  case (Cons c cs)
  from Cons.prems(3) obtain s1 where e: "exec c s = (Inr (), s1)" and r: "run cs s1 = (Inr (), s')"
    by (auto split: prod.splits sum.splits)
  from Cons.prems(2) have c: "names_fields_of (length (objs s)) c" by simp
  from exec_homogeneous [OF Cons.prems(1) c e]
  have s1: "all_homogeneous s1" "length (objs s1) = length (objs s)" by simp_all
  from Cons.prems(2) s1(2) have "\<forall>c \<in> set cs. names_fields_of (length (objs s1)) c" by simp
  from Cons.IH [OF s1(1) this r] show ?case .
qed

lemma empty_state_homogeneous: "all_homogeneous empty_state"
  by (simp add: all_homogeneous_def empty_state_def)

lemma Field_init_homogeneous:
  assumes ok: "all_homogeneous s" and i: "Field_init c n d s = (Inr f, s')"
  shows "all_homogeneous s'"
proof -
  from i have n: "allocatable s n" by (rule Field_init_success)
  from i have s': "s' = s\<lparr>objs := objs s @ [\<lparr>cls = c, num_vars = n, default_var = d,
                             values_ref = length (arrs s)\<rparr>],
        arrs := arrs s @ [replicate (nat n) d]\<rparr>"
    unfolding Field_init_ok [OF n] by simp
  show ?thesis
  proof (rule all_homogeneousI)
    fix h assume "h < length (objs s')"
    then have "h < length (objs s) \<or> h = length (objs s)" by (auto simp: s')
    then show "values_ref (objs s' ! h) < length (arrs s') \<and>
        (\<forall>x \<in> set (arrs s' ! values_ref (objs s' ! h)).
           var_type x = var_type (default_var (objs s' ! h)))"
    proof
      assume h: "h < length (objs s)"
      then show ?thesis using all_homogeneousD [OF ok h] by (simp add: s' nth_append)
    next
      assume "h = length (objs s)"
      then show ?thesis by (simp add: s')
    qed
  qed
qed

lemma apply_func_no_write:
  "(\<forall>x r. g x = Some r \<longrightarrow> var_type r \<noteq> field_type s f) \<Longrightarrow> snd (apply_func g f is s) = s"
  by (induction "is") (auto split: sum.splits option.splits)

lemma check_type_mismatch:
  "field_type s g \<noteq> field_type s f \<Longrightarrow>
   check_fields_compatible s f g = Inl ValueError \<or> check_fields_compatible s f g = Inl TypeError"
  by (auto simp: check_fields_compatible_def)

text \<open>
  C8: kind homogeneity is an invariant. From a state in which every field is live and
  stores values of its default's type only, any sequence of successful \<open>set\<close>,
  \<open>for_each\<close>, \<open>at\<close> and \<open>assign\<close> calls on fields of the state leads to such a
  state again. \<open>set\<close> rejects a value of another type with \<open>TypeError\<close>, \<open>assign\<close>
  rejects a variable or a field of another type with \<open>TypeError\<close>, each leaving the
  state as it was, and \<open>for_each\<close> and \<open>at\<close> store nothing when the transform's
  results are never of the field's type.
\<close>

theorem kind_homogeneity:
  "(all_homogeneous s \<and> (\<forall>c \<in> set cs. names_fields_of (length (objs s)) c) \<and>
      run cs s = (Inr (), s') \<longrightarrow> all_homogeneous s') \<and>
   (var_type v \<noteq> field_type s f \<longrightarrow> setitem f i v s = (Inl TypeError, s)) \<and>
   (var_type v \<noteq> field_type s f \<longrightarrow> assign f (OVar v) s = (Inl TypeError, s)) \<and>
   (field_type s g \<noteq> field_type s f \<longrightarrow> assign f (OField g) s = (Inl TypeError, s)) \<and>
   ((\<forall>x r. t x = Some r \<longrightarrow> var_type r \<noteq> field_type s f) \<longrightarrow>
      snd (for_each f (Callable t) s) = s \<and> snd (at_field f indexes (Callable t) s) = s)"
proof (intro conjI impI)
  assume "all_homogeneous s \<and> (\<forall>c \<in> set cs. names_fields_of (length (objs s)) c) \<and>
      run cs s = (Inr (), s')"
  then show "all_homogeneous s'" using run_homogeneous by blast
next
  assume "var_type v \<noteq> field_type s f"
  then show "setitem f i v s = (Inl TypeError, s)"
    by (simp add: setitem_def field_type_def)
next
  assume "var_type v \<noteq> field_type s f"
  then show "assign f (OVar v) s = (Inl TypeError, s)"
    by (simp add: assign_def)
next
  assume "field_type s g \<noteq> field_type s f"
  from check_type_mismatch [OF this]
  show "assign f (OField g) s = (Inl TypeError, s)"
    by (auto simp: assign_def reraise_def)
next
  assume a: "\<forall>x r. t x = Some r \<longrightarrow> var_type r \<noteq> field_type s f"
  show "snd (for_each f (Callable t) s) = s"
    using apply_func_no_write [OF a] by (simp add: for_each_def)
  show "snd (at_field f indexes (Callable t) s) = s"
    using apply_func_no_write [OF a]
    by (cases indexes) (simp_all add: at_field_def Let_def del: apply_func.simps)
qed

lemma two_fields_homogeneous: "all_homogeneous two_fields"
  by (simp add: all_homogeneous_def live_def homogeneous_def self_values_def field_type_def
      two_fields_def upt_rec [of _ "Suc _"])

lemma example_calls_run:
  "run example_calls two_fields =
     (Inr (),
      \<lparr>objs = [\<lparr>cls = CellField, num_vars = 2, default_var = Scalar 0, values_ref = 2\<rparr>,
               \<lparr>cls = CellField, num_vars = 2, default_var = Scalar 0, values_ref = 0\<rparr>],
       arrs = [[Scalar 5, Scalar (- 1)], [Scalar 11, Scalar 21], [Scalar 9, Scalar 9]],
       max_alloc = 1000000\<rparr>)"
  by (simp add: example_calls_def two_fields_def setitem_def for_each_def at_field_def
      assign_def check_fields_compatible_def domain_def field_type_def self_values_def
      write_slot_def np_index_def np_full_def np_size_limit_def add_one_def numeral_2_eq_2
      upt_rec [of _ "Suc _"])

theorem kind_homogeneity_witness:
  "all_homogeneous two_fields \<and>
   list_all (names_fields_of (length (objs two_fields))) example_calls \<and>
   fst (run example_calls two_fields) = Inr () \<and>
   all_homogeneous (snd (run example_calls two_fields)) \<and>
   setitem 0 0 (Vector [1]) two_fields = (Inl TypeError, two_fields) \<and>
   assign 0 (OVar (Tensor [1])) two_fields = (Inl TypeError, two_fields) \<and>
   snd (for_each 0 (Callable (\<lambda>x. Some (Vector [1]))) two_fields) = two_fields"
proof -
  have n: "\<forall>c \<in> set example_calls. names_fields_of (length (objs two_fields)) c"
    by (simp add: example_calls_def two_fields_def)
  have r: "run example_calls two_fields = (Inr (), snd (run example_calls two_fields))"
    by (simp add: example_calls_run)
  have ty: "field_type two_fields 0 = ''scalar''"
    by (simp add: field_type_def two_fields_def)
  have a: "all_homogeneous (snd (run example_calls two_fields))"
    using kind_homogeneity [of two_fields example_calls "snd (run example_calls two_fields)"]
      two_fields_homogeneous n r by blast
  have b: "setitem 0 0 (Vector [1]) two_fields = (Inl TypeError, two_fields)"
    using kind_homogeneity [of two_fields _ _ "Vector [1]" 0 0] by (simp add: ty)
  have c: "assign 0 (OVar (Tensor [1])) two_fields = (Inl TypeError, two_fields)"
    using kind_homogeneity [of two_fields _ _ "Tensor [1]" 0] by (simp add: ty)
  have d: "snd (for_each 0 (Callable (\<lambda>x. Some (Vector [1]))) two_fields) = two_fields"
    using kind_homogeneity [of two_fields _ _ _ 0 _ _ "\<lambda>x. Some (Vector [1])"] by (simp add: ty)
  have e: "fst (run example_calls two_fields) = Inr ()"
    by (simp add: example_calls_run)
  from n have n': "list_all (names_fields_of (length (objs two_fields))) example_calls"
    by (simp add: list_all_iff)
  show ?thesis using two_fields_homogeneous n' e a b c d by blast
qed

subsection \<open>The visits of \<open>at\<close>\<close>

lemma set_values_same: "live s f \<Longrightarrow> set_values f (self_values s f) s = s"
  by (simp add: set_values_def self_values_def live_def)

lemma set_values_simps [simp]:
  "objs (set_values f arr s) = objs s"
  "field_type (set_values f arr s) f = field_type s f"
  "live s f \<Longrightarrow> live (set_values f arr s) f"
  "live s f \<Longrightarrow> self_values (set_values f arr s) f = arr"
  "set_values f arr' (set_values f arr s) = set_values f arr' s"
  by (simp_all add: set_values_def field_type_def live_def self_values_def)

lemma apply_func_step:
  assumes lv: "live s f" and k: "np_index (length (self_values s f)) i = Inr k"
  shows "apply_func g f (i # is) s =
     apply_func g f is
       (set_values f ((self_values s f)[k := replace_or_skip g (field_type s f) (self_values s f ! k)]) s)"
proof -
  have w: "write_slot f k r s = set_values f ((self_values s f)[k := r]) s" for r
    by (simp add: write_slot_def set_values_def)
  show ?thesis
    using k by (simp add: replace_or_skip_def w set_values_same [OF lv] split: option.split)
qed

lemma apply_func_distinct:
  "live s f \<Longrightarrow> distinct is \<Longrightarrow> \<forall>i \<in> set is. 0 \<le> i \<and> i < int (length (self_values s f)) \<Longrightarrow>
   apply_func g f is s =
     (Inr (), set_values f
        (map (\<lambda>k. if int k \<in> set is
                   then replace_or_skip g (field_type s f) (self_values s f ! k)
                   else self_values s f ! k) [0..<length (self_values s f)]) s)"
proof (induction "is" arbitrary: s)
  case Nil
  then show ?case by (simp add: map_nth set_values_same)
next
  case (Cons i "is")
  let ?arr = "self_values s f"
  let ?ty = "field_type s f"
  let ?k = "nat i"
  let ?u = "replace_or_skip g ?ty (?arr ! ?k)"
  let ?s1 = "set_values f (?arr[?k := ?u]) s"
  from Cons.prems(3) have i: "0 \<le> i" "i < int (length ?arr)" by simp_all
  then have k: "np_index (length ?arr) i = Inr ?k" by (simp add: np_index_def)
  have lv1: "live ?s1 f" using Cons.prems(1) by simp
  have arr1: "self_values ?s1 f = ?arr[?k := ?u]" using Cons.prems(1) by simp
  have ty1: "field_type ?s1 f = ?ty" by simp
  have ov: "set_values f X ?s1 = set_values f X s" for X by simp
  have d: "distinct is" and ni: "i \<notin> set is" using Cons.prems(2) by simp_all
  have r: "\<forall>j \<in> set is. 0 \<le> j \<and> j < int (length (self_values ?s1 f))"
    using Cons.prems(3) by (simp add: arr1)
  have eq: "map (\<lambda>j. if int j \<in> set is
                   then replace_or_skip g ?ty ((?arr[?k := ?u]) ! j)
                   else (?arr[?k := ?u]) ! j) [0..<length ?arr]
          = map (\<lambda>j. if int j \<in> set (i # is)
                   then replace_or_skip g ?ty (?arr ! j)
                   else ?arr ! j) [0..<length ?arr]"
  proof (rule map_cong [OF refl])
    fix j assume "j \<in> set [0..<length ?arr]"
    then have j: "j < length ?arr" by simp
    show "(if int j \<in> set is then replace_or_skip g ?ty ((?arr[?k := ?u]) ! j)
           else (?arr[?k := ?u]) ! j)
        = (if int j \<in> set (i # is) then replace_or_skip g ?ty (?arr ! j) else ?arr ! j)"
    proof (cases "j = ?k")
      case True
      then have "int j = i" using i by simp
      then show ?thesis using ni j True by simp
    next
      case False
      then have "int j \<noteq> i" using i by auto
      then show ?thesis using False by simp
    qed
  qed
  have "apply_func g f (i # is) s = apply_func g f is ?s1"
    using Cons.prems(1) k by (rule apply_func_step)
  also have "\<dots> = (Inr (), set_values f
        (map (\<lambda>j. if int j \<in> set is
                   then replace_or_skip g (field_type ?s1 f) (self_values ?s1 f ! j)
                   else self_values ?s1 f ! j) [0..<length (self_values ?s1 f)]) ?s1)"
    using lv1 d r by (rule Cons.IH)
  also have "\<dots> = (Inr (), set_values f
        (map (\<lambda>j. if int j \<in> set (i # is)
                   then replace_or_skip g ?ty (?arr ! j)
                   else ?arr ! j) [0..<length ?arr]) s)"
    by (simp only: ty1 arr1 length_list_update ov eq)
  finally show ?case .
qed

lemma apply_func_fold:
  "live s f \<Longrightarrow> \<forall>i \<in> set is. 0 \<le> i \<and> i < int (length (self_values s f)) \<Longrightarrow>
   apply_func g f is s =
     (Inr (), set_values f
        (fold (\<lambda>i arr. arr[nat i := replace_or_skip g (field_type s f) (arr ! nat i)]) is
           (self_values s f)) s)"
proof (induction "is" arbitrary: s)
  case Nil
  then show ?case by (simp add: set_values_same)
next
  case (Cons i "is")
  let ?arr = "self_values s f"
  let ?u = "replace_or_skip g (field_type s f) (?arr ! nat i)"
  let ?s1 = "set_values f (?arr[nat i := ?u]) s"
  from Cons.prems(2) have i: "0 \<le> i" "i < int (length ?arr)" by simp_all
  then have k: "np_index (length ?arr) i = Inr (nat i)" by (simp add: np_index_def)
  have lv1: "live ?s1 f" using Cons.prems(1) by simp
  have arr1: "self_values ?s1 f = ?arr[nat i := ?u]" using Cons.prems(1) by simp
  have ty1: "field_type ?s1 f = field_type s f" by simp
  have ov: "set_values f X ?s1 = set_values f X s" for X by simp
  have r: "\<forall>j \<in> set is. 0 \<le> j \<and> j < int (length (self_values ?s1 f))"
    using Cons.prems(2) by (simp add: arr1)
  have "apply_func g f (i # is) s = apply_func g f is ?s1"
    using Cons.prems(1) k by (rule apply_func_step)
  also have "\<dots> = (Inr (), set_values f
        (fold (\<lambda>i arr. arr[nat i := replace_or_skip g (field_type ?s1 f) (arr ! nat i)]) is
           (self_values ?s1 f)) ?s1)"
    using lv1 r by (rule Cons.IH)
  also have "\<dots> = (Inr (), set_values f
        (fold (\<lambda>i arr. arr[nat i := replace_or_skip g (field_type s f) (arr ! nat i)]) (i # is)
           ?arr) s)"
    by (simp only: ty1 arr1 ov fold_simps)
  finally show ?case .
qed

lemma at_field_in_range:
  assumes "indexes \<noteq> []" and "\<forall>i \<in> set indexes. 0 \<le> i \<and> i < len s f"
  shows "at_field f indexes (Callable g) s = apply_func g f indexes s"
proof -
  obtain x xs where ix: "indexes = x # xs" using assms(1) by (cases indexes) auto
  have "fold min xs x \<in> set (x # xs)"
    by (metis Min.set_eq_fold Min_in List.finite_set list.distinct(1) set_empty)
  moreover have "fold max xs x \<in> set (x # xs)"
    by (metis Max.set_eq_fold Max_in List.finite_set list.distinct(1) set_empty)
  ultimately have "\<not> (fold min xs x < 0 \<or> num_vars (objs s ! f) \<le> fold max xs x)"
    using assms(2) unfolding ix len_def by (metis not_le)
  then show ?thesis
    by (simp add: at_field_def ix Let_def del: apply_func.simps)
qed

text \<open>
  C9, as the spec has it: each supplied index is visited exactly once, also when the
  supplied collection repeats an index. \<open>at\<close> takes a list and iterates it as given:
  on the scalar field \<open>[1]\<close> with the indices \<open>[0, 0]\<close> and the transform that adds
  one, the transform is applied twice to slot 0, which ends at 3, not at 2.
\<close>

theorem at_field_repeated_index:
  "fst (getitem 0 0 (snd (at_field 0 [0, 0] (Callable add_one) (scalar_field_state [1]))))
     = Inr (Scalar 3)"
  by (simp add: at_field_def getitem_def np_index_def add_one_def scalar_field_state_def
      self_values_def field_type_def write_slot_def)

text \<open>
  C9, amended: for every well-formed field, every non-empty list of indices in
  \<open>[0, count)\<close> and every transform, \<open>at\<close> succeeds and applies the transform once
  for each occurrence of an index in the list, in the order of the list, and touches
  nothing but the array of the field; when the list repeats no index, each supplied
  index is visited exactly once: its slot ends as the replace-or-skip of the transform
  on the value it had before the call, and every other slot is unchanged.
\<close>

theorem at_field_once_per_occurrence:
  assumes wf: "well_formed s f" and ne: "indexes \<noteq> []"
    and rng: "\<forall>i \<in> set indexes. 0 \<le> i \<and> i < len s f"
  shows "at_field f indexes (Callable g) s =
           (Inr (), set_values f
              (fold (\<lambda>i arr. arr[nat i := replace_or_skip g (field_type s f) (arr ! nat i)])
                 indexes (self_values s f)) s) \<and>
         (distinct indexes \<longrightarrow>
            at_field f indexes (Callable g) s =
              (Inr (), set_values f
                 (map (\<lambda>k. if int k \<in> set indexes
                            then replace_or_skip g (field_type s f) (self_values s f ! k)
                            else self_values s f ! k) [0..<length (self_values s f)]) s))"
proof -
  from wf have lv: "live s f" and n: "int (length (self_values s f)) = len s f"
    by (simp_all add: well_formed_def len_def)
  from rng n have r: "\<forall>i \<in> set indexes. 0 \<le> i \<and> i < int (length (self_values s f))"
    by simp
  have a: "at_field f indexes (Callable g) s = apply_func g f indexes s"
    using ne rng by (rule at_field_in_range)
  show ?thesis
    unfolding a using apply_func_fold [OF lv r] apply_func_distinct [OF lv _ r] by blast
qed

theorem at_field_once_per_occurrence_witness:
  "well_formed (scalar_field_state [1, 2, 3, 4, 5]) 0 \<and>
   at_field 0 [3, 1] (Callable add_one) (scalar_field_state [1, 2, 3, 4, 5])
     = (Inr (), scalar_field_state [1, 3, 3, 5, 5]) \<and>
   at_field 0 [1, 1] (Callable add_one) (scalar_field_state [1, 2, 3, 4, 5])
     = (Inr (), scalar_field_state [1, 4, 3, 4, 5])"
proof -
  let ?s = "scalar_field_state [1, 2, 3, 4, 5]"
  have wf: "well_formed ?s 0" by (rule scalar_field_state_well_formed) simp
  have n: "len ?s 0 = 5" by (simp add: len_def scalar_field_state_def)
  have ty: "field_type ?s 0 = ''scalar''" by (simp add: field_type_def scalar_field_state_def)
  have r1: "\<forall>i \<in> set [3, 1]. 0 \<le> i \<and> i < len ?s 0" by (simp add: n)
  have r2: "\<forall>i \<in> set [1, 1]. 0 \<le> i \<and> i < len ?s 0" by (simp add: n)
  from at_field_once_per_occurrence [OF wf _ r1, of add_one]
  have "at_field 0 [3, 1] (Callable add_one) ?s
          = (Inr (), set_values 0 (map Scalar [1, 3, 3, 5, 5]) ?s)"
    by (simp add: ty replace_or_skip_def add_one_def)
  moreover from at_field_once_per_occurrence [OF wf _ r2, of add_one]
  have "at_field 0 [1, 1] (Callable add_one) ?s
          = (Inr (), set_values 0 (map Scalar [1, 4, 3, 4, 5]) ?s)"
    by (simp add: ty replace_or_skip_def add_one_def)
  ultimately show ?thesis using wf by (simp add: set_values_def scalar_field_state_def)
qed

end
